theory Spec2Isabelle
  imports Main "HOL-Library.Word"
begin

section \<open>Data types of elevator_hls.h\<close>

text \<open>
  The header declares three fixed-width types: \<open>floor_t = ap_uint<4>\<close>,
  \<open>state_t = ap_uint<2>\<close> and \<open>direction_t = ap_int<2>\<close>. They are modelled as
  words of the same width; the direction is read as two's complement with \<open>sint\<close>.
\<close>

type_synonym floor_t = "4 word"
type_synonym state_t = "2 word"
type_synonym direction_t = "2 word"

definition STATE_IDLE :: state_t where
  "STATE_IDLE = 0"

definition STATE_MOVING :: state_t where
  "STATE_MOVING = 1"

definition STATE_DOOR_OPEN :: state_t where
  "STATE_DOOR_OPEN = 2"

definition DIR_DOWN :: direction_t where
  "DIR_DOWN = - 1"

definition DIR_IDLE :: direction_t where
  "DIR_IDLE = 0"

definition DIR_UP :: direction_t where
  "DIR_UP = 1"

text \<open>The request structure; the field \<open>floor\<close> is named \<open>req_floor\<close> here, and
  \<open>valid\<close> is named \<open>req_valid\<close>.\<close>

record request_t =
  req_floor :: floor_t
  req_valid :: bool

text \<open>Assigning a C++ integer to a \<open>floor_t\<close> keeps its low four bits.\<close>

definition to_floor_t :: "int \<Rightarrow> floor_t" where
  "to_floor_t n = word_of_int n"

section \<open>The persistent state and the output ports\<close>

text \<open>The five function-local \<open>static\<close> variables of \<open>elevator_controller\<close>.\<close>

record controller =
  elevator_floor :: floor_t
  elevator_state :: state_t
  elevator_direction :: direction_t
  target_floor :: floor_t
  has_target :: bool

text \<open>The four reference parameters, which the function only writes.\<close>

record ports =
  current_floor :: floor_t
  current_state :: state_t
  current_direction :: direction_t
  request_accepted :: bool

text \<open>The initialisers of the static variables.\<close>

definition init_controller :: controller where
  "init_controller =
     \<lparr>elevator_floor = 1, elevator_state = STATE_IDLE, elevator_direction = DIR_IDLE,
      target_floor = 0, has_target = False\<rparr>"

section \<open>The transition function\<close>

text \<open>The reset branch: every static variable is overwritten.\<close>

definition reset_controller :: "controller \<Rightarrow> controller" where
  "reset_controller s =
     s\<lparr>elevator_floor := 1, elevator_state := STATE_IDLE, elevator_direction := DIR_IDLE,
       target_floor := 0, has_target := False\<rparr>"

text \<open>
  The block ``process new request only if idle and no current target''. It returns the
  state it leaves behind and the value it assigns to \<open>request_accepted\<close>. The direction
  is determined from \<open>target_floor\<close> after the assignment to it.
\<close>

definition process_request :: "request_t \<Rightarrow> controller \<Rightarrow> controller \<times> bool" where
  "process_request r s =
     (if req_valid r \<and> \<not> has_target s \<and> elevator_state s = STATE_IDLE then
        if req_floor r > 0 \<and> req_floor r \<le> 15 \<and> req_floor r \<noteq> elevator_floor s then
          let s1 = s\<lparr>target_floor := req_floor r, has_target := True\<rparr>;
              s2 = (if target_floor s1 > elevator_floor s1
                    then s1\<lparr>elevator_direction := DIR_UP\<rparr>
                    else s1\<lparr>elevator_direction := DIR_DOWN\<rparr>)
          in (s2\<lparr>elevator_state := STATE_MOVING\<rparr>, True)
        else (s, False)
      else (s, False))"

text \<open>
  The block ``move elevator if we have a target'', with its \<open>else if\<close> for the door.
  \<open>elevator_floor++\<close> and \<open>elevator_floor--\<close> are four-bit operations.
\<close>

definition move_elevator :: "controller \<Rightarrow> controller" where
  "move_elevator s =
     (if has_target s \<and> elevator_state s = STATE_MOVING then
        let s1 = (if elevator_floor s < target_floor s
                  then s\<lparr>elevator_floor := elevator_floor s + 1, elevator_direction := DIR_UP\<rparr>
                  else if elevator_floor s > target_floor s
                  then s\<lparr>elevator_floor := elevator_floor s - 1, elevator_direction := DIR_DOWN\<rparr>
                  else s)
        in if elevator_floor s1 = target_floor s1
           then s1\<lparr>elevator_state := STATE_DOOR_OPEN, elevator_direction := DIR_IDLE,
                   has_target := False\<rparr>
           else s1
      else if elevator_state s = STATE_DOOR_OPEN then s\<lparr>elevator_state := STATE_IDLE\<rparr>
      else s)"

text \<open>The output ports are copied from the state at the end of every call.\<close>

definition update_ports :: "controller \<Rightarrow> bool \<Rightarrow> ports" where
  "update_ports s acc =
     \<lparr>current_floor = elevator_floor s, current_state = elevator_state s,
      current_direction = elevator_direction s, request_accepted = acc\<rparr>"

text \<open>One call of \<open>elevator_controller\<close>: the new state and the values on the ports.\<close>

definition elevator_controller :: "request_t \<Rightarrow> bool \<Rightarrow> controller \<Rightarrow> controller \<times> ports" where
  "elevator_controller input_request reset s =
     (if reset then
        let s' = reset_controller s in (s', update_ports s' False)
      else
        let (s1, acc) = process_request input_request s;
            s' = move_elevator s1
        in (s', update_ports s' acc))"

text \<open>The state and the ports after one call.\<close>

definition next_state :: "request_t \<Rightarrow> bool \<Rightarrow> controller \<Rightarrow> controller" where
  "next_state r rst s = fst (elevator_controller r rst s)"

definition outputs :: "request_t \<Rightarrow> bool \<Rightarrow> controller \<Rightarrow> ports" where
  "outputs r rst s = snd (elevator_controller r rst s)"

text \<open>The states the controller can be in between two calls, from the static
  initialisers, under any sequence of requests and resets.\<close>

inductive reachable :: "controller \<Rightarrow> bool" where
  reachable_init: "reachable init_controller"
| reachable_step: "reachable s \<Longrightarrow> reachable (next_state r rst s)"

text \<open>A run of calls without reset, one request per cycle.\<close>

fun run_cycles :: "request_t list \<Rightarrow> controller \<Rightarrow> controller" where
  "run_cycles [] s = s"
| "run_cycles (r # rs) s = run_cycles rs (next_state r False s)"

text \<open>The distance in floors between the car and the target register.\<close>

definition floor_distance :: "controller \<Rightarrow> nat" where
  "floor_distance s = nat \<bar>uint (elevator_floor s) - uint (target_floor s)\<bar>"

text \<open>The invariant of the reachable states: the car is never at floor 0, a target is held
  exactly while moving, the direction is idle unless moving, and a held target is a
  requestable floor other than the one the car is at.\<close>

definition controller_inv :: "controller \<Rightarrow> bool" where
  "controller_inv s =
     (elevator_floor s \<noteq> 0 \<and>
      (has_target s = (elevator_state s = STATE_MOVING)) \<and>
      (elevator_state s \<noteq> STATE_MOVING \<longrightarrow> elevator_direction s = DIR_IDLE) \<and>
      (has_target s \<longrightarrow> target_floor s \<noteq> 0 \<and> target_floor s \<noteq> elevator_floor s))"

section \<open>Arithmetic on floors\<close>

lemma floor_inc_nonzero: "(f::floor_t) < t \<Longrightarrow> f + 1 \<noteq> 0"
  by unat_arith

lemma floor_inc_uint: "(f::floor_t) < t \<Longrightarrow> uint (f + 1) = uint f + 1"
  by uint_arith

lemma floor_dec_uint: "(t::floor_t) < f \<Longrightarrow> uint (f - 1) = uint f - 1"
  by uint_arith

lemma floor_dec_nonzero: "(t::floor_t) < f \<Longrightarrow> t \<noteq> 0 \<Longrightarrow> f - 1 \<noteq> 0"
  by unat_arith

lemma floor_le_15: "(f::floor_t) \<le> 15"
  using unsigned_less [of f, where ?'a = nat] by (simp add: word_le_nat_alt)

section \<open>Reset\<close>

lemma reset_controller_init: "reset_controller s = init_controller"
  by (cases s) (simp add: reset_controller_def init_controller_def)

lemma elevator_controller_reset:
  "elevator_controller r True s = (init_controller, update_ports init_controller False)"
  by (simp add: elevator_controller_def reset_controller_init Let_def)

section \<open>The two blocks of a cycle without reset\<close>

lemmas state_defs = STATE_IDLE_def STATE_MOVING_def STATE_DOOR_OPEN_def
lemmas dir_defs = DIR_DOWN_def DIR_IDLE_def DIR_UP_def

lemma snd_process_request:
  "snd (process_request r s) =
     (req_valid r \<and> \<not> has_target s \<and> elevator_state s = STATE_IDLE \<and>
      1 \<le> req_floor r \<and> req_floor r \<le> 15 \<and> req_floor r \<noteq> elevator_floor s)"
  by (simp add: process_request_def Let_def word_neq_0_conv [symmetric] floor_le_15) unat_arith

lemma process_request_rejected:
  "\<not> snd (process_request r s) \<Longrightarrow> fst (process_request r s) = s"
  by (auto simp: process_request_def Let_def split: if_splits)

lemma process_request_accepted:
  "snd (process_request r s) \<Longrightarrow>
   fst (process_request r s) =
     s\<lparr>target_floor := req_floor r, has_target := True,
       elevator_direction := (if elevator_floor s < req_floor r then DIR_UP else DIR_DOWN),
       elevator_state := STATE_MOVING\<rparr>"
  by (simp add: process_request_def Let_def split: if_splits)

lemma next_state_no_reset:
  "next_state r False s = move_elevator (fst (process_request r s))"
  by (simp add: next_state_def elevator_controller_def Let_def split: prod.splits)

lemma outputs_no_reset:
  "outputs r False s = update_ports (next_state r False s) (snd (process_request r s))"
  by (simp add: next_state_def outputs_def elevator_controller_def Let_def split: prod.splits)

lemma process_request_inv:
  "controller_inv s \<Longrightarrow> controller_inv (fst (process_request r s))"
  by (auto simp: controller_inv_def process_request_def Let_def state_defs dir_defs word_neq_0_conv)

lemma move_elevator_inv:
  "controller_inv s \<Longrightarrow> controller_inv (move_elevator s)"
  by (auto simp: controller_inv_def move_elevator_def Let_def state_defs dir_defs
        floor_inc_nonzero floor_dec_nonzero)

lemma init_controller_inv: "controller_inv init_controller"
  by (simp add: controller_inv_def init_controller_def state_defs dir_defs)

lemma next_state_inv: "controller_inv s \<Longrightarrow> controller_inv (next_state r rst s)"
proof (cases rst)
  case True
  then show ?thesis
    by (simp add: next_state_def elevator_controller_reset init_controller_inv)
next
  case False
  assume "controller_inv s"
  with False show ?thesis
    by (simp add: next_state_no_reset process_request_inv move_elevator_inv)
qed

lemma reachable_inv: "reachable s \<Longrightarrow> controller_inv s"
  by (induction rule: reachable.induct) (simp_all add: init_controller_inv next_state_inv)

section \<open>Movement towards a held target\<close>

lemma held_target_rejects: "has_target s \<Longrightarrow> process_request r s = (s, False)"
  by (simp add: process_request_def)

lemma next_state_held: "has_target s \<Longrightarrow> next_state r False s = move_elevator s"
  by (simp add: next_state_no_reset held_target_rejects)

lemma move_elevator_target: "target_floor (move_elevator s) = target_floor s"
  by (simp add: move_elevator_def Let_def)

lemma move_elevator_up:
  assumes "has_target s" "elevator_state s = STATE_MOVING" "elevator_floor s < target_floor s"
  shows "uint (elevator_floor (move_elevator s)) = uint (elevator_floor s) + 1"
    and "floor_distance (move_elevator s) + 1 = floor_distance s"
proof -
  have fl: "elevator_floor (move_elevator s) = elevator_floor s + 1"
    using assms by (simp add: move_elevator_def Let_def)
  show u: "uint (elevator_floor (move_elevator s)) = uint (elevator_floor s) + 1"
    using assms(3) by (simp add: fl floor_inc_uint)
  have "uint (elevator_floor s) < uint (target_floor s)"
    using assms(3) by (simp add: word_less_def)
  with u show "floor_distance (move_elevator s) + 1 = floor_distance s"
    by (simp add: floor_distance_def move_elevator_target)
qed

lemma move_elevator_down:
  assumes "has_target s" "elevator_state s = STATE_MOVING" "target_floor s < elevator_floor s"
  shows "uint (elevator_floor (move_elevator s)) = uint (elevator_floor s) - 1"
    and "floor_distance (move_elevator s) + 1 = floor_distance s"
proof -
  have fl: "elevator_floor (move_elevator s) = elevator_floor s - 1"
    using assms by (auto simp: move_elevator_def Let_def)
  show u: "uint (elevator_floor (move_elevator s)) = uint (elevator_floor s) - 1"
    using assms(3) by (simp add: fl floor_dec_uint)
  have "uint (target_floor s) < uint (elevator_floor s)"
    using assms(3) by (simp add: word_less_def)
  with u show "floor_distance (move_elevator s) + 1 = floor_distance s"
    by (simp add: floor_distance_def move_elevator_target)
qed

lemma floor_distance_zero: "(floor_distance s = 0) = (elevator_floor s = target_floor s)"
  by (auto simp: floor_distance_def word_uint_eq_iff)

lemma move_elevator_arrival:
  assumes "has_target s" "elevator_state s = STATE_MOVING"
  shows "has_target (move_elevator s) = (elevator_floor (move_elevator s) \<noteq> target_floor s)"
    and "(elevator_state (move_elevator s) = STATE_DOOR_OPEN) =
         (elevator_floor (move_elevator s) = target_floor s)"
    and "(elevator_state (move_elevator s) = STATE_MOVING) =
         (elevator_floor (move_elevator s) \<noteq> target_floor s)"
    and "elevator_floor (move_elevator s) = target_floor s \<Longrightarrow>
         elevator_direction (move_elevator s) = DIR_IDLE"
  using assms by (auto simp: move_elevator_def Let_def state_defs)

lemma move_step:
  assumes "controller_inv s" "has_target s"
  shows "floor_distance (next_state r False s) + 1 = floor_distance s"
    and "target_floor (next_state r False s) = target_floor s"
    and "has_target (next_state r False s) = (floor_distance (next_state r False s) \<noteq> 0)"
    and "\<not> has_target (next_state r False s) \<Longrightarrow>
         elevator_state (next_state r False s) = STATE_DOOR_OPEN"
proof -
  have mv: "elevator_state s = STATE_MOVING" and ne: "elevator_floor s \<noteq> target_floor s"
    using assms by (auto simp: controller_inv_def)
  have ns: "next_state r False s = move_elevator s"
    using assms(2) by (rule next_state_held)
  from ne have "elevator_floor s < target_floor s \<or> target_floor s < elevator_floor s"
    by (simp add: neq_iff)
  then show "floor_distance (next_state r False s) + 1 = floor_distance s"
    using move_elevator_up(2) [OF assms(2) mv] move_elevator_down(2) [OF assms(2) mv]
    by (auto simp: ns)
  show "target_floor (next_state r False s) = target_floor s"
    by (simp add: ns move_elevator_target)
  show "has_target (next_state r False s) = (floor_distance (next_state r False s) \<noteq> 0)"
    by (simp add: ns floor_distance_zero move_elevator_target move_elevator_arrival(1) [OF assms(2) mv])
  show "\<not> has_target (next_state r False s) \<Longrightarrow>
         elevator_state (next_state r False s) = STATE_DOOR_OPEN"
    by (simp add: ns move_elevator_arrival(1,2) [OF assms(2) mv])
qed

lemma run_cycles_approach:
  "controller_inv s \<Longrightarrow> has_target s \<Longrightarrow> length rs \<le> floor_distance s \<Longrightarrow>
   floor_distance (run_cycles rs s) = floor_distance s - length rs \<and>
   target_floor (run_cycles rs s) = target_floor s \<and>
   has_target (run_cycles rs s) = (length rs < floor_distance s) \<and>
   (length rs = floor_distance s \<longrightarrow> elevator_state (run_cycles rs s) = STATE_DOOR_OPEN)"
proof (induction rs arbitrary: s)
  case Nil
  then have "floor_distance s \<noteq> 0"
    by (auto simp: floor_distance_zero controller_inv_def)
  with Nil show ?case
    by simp
next
  case (Cons r rs)
  let ?s' = "next_state r False s"
  have d: "floor_distance ?s' + 1 = floor_distance s"
    and t: "target_floor ?s' = target_floor s"
    and h: "has_target ?s' = (floor_distance ?s' \<noteq> 0)"
    and o: "\<not> has_target ?s' \<Longrightarrow> elevator_state ?s' = STATE_DOOR_OPEN"
    using move_step [OF Cons.prems(1,2)] by blast+
  have inv': "controller_inv ?s'"
    using Cons.prems(1) by (rule next_state_inv)
  have len: "length rs \<le> floor_distance ?s'"
    using Cons.prems(3) d by simp
  show ?case
  proof (cases "has_target ?s'")
    case True
    from Cons.IH [OF inv' True len] d t show ?thesis
      by auto
  next
    case False
    with h len have "rs = []" by simp
    with False h d t o show ?thesis by simp
  qed
qed

section \<open>The ports and the fixed points of the movement block\<close>

lemma outputs_fields:
  "current_floor (outputs r False s) = elevator_floor (next_state r False s)"
  "current_state (outputs r False s) = elevator_state (next_state r False s)"
  "current_direction (outputs r False s) = elevator_direction (next_state r False s)"
  "request_accepted (outputs r False s) = snd (process_request r s)"
  by (simp_all add: outputs_no_reset update_ports_def)

lemma move_elevator_idle: "elevator_state s = STATE_IDLE \<Longrightarrow> move_elevator s = s"
  by (simp add: move_elevator_def state_defs)

lemma move_elevator_fixed:
  "(move_elevator s = s) =
     (\<not> (has_target s \<and> elevator_state s = STATE_MOVING) \<and> elevator_state s \<noteq> STATE_DOOR_OPEN)"
proof (cases "has_target s \<and> elevator_state s = STATE_MOVING")
  case True
  then have h: "has_target s" and m: "elevator_state s = STATE_MOVING" by simp_all
  have "move_elevator s \<noteq> s"
  proof
    assume eq: "move_elevator s = s"
    then have st: "elevator_state (move_elevator s) = STATE_MOVING" using m by simp
    then have "elevator_floor (move_elevator s) \<noteq> target_floor s"
      using move_elevator_arrival(3) [OF h m] by simp
    with eq have ne: "elevator_floor s \<noteq> target_floor s" by simp
    then have "elevator_floor s < target_floor s \<or> target_floor s < elevator_floor s"
      by (simp add: neq_iff)
    then have "floor_distance (move_elevator s) + 1 = floor_distance s"
      using move_elevator_up(2) [OF h m] move_elevator_down(2) [OF h m] by blast
    with eq show False by simp
  qed
  with True show ?thesis by simp
next
  case False
  then show ?thesis
    by (cases s) (auto simp: move_elevator_def state_defs)
qed

section \<open>Further facts used below\<close>

lemma outputs_ports:
  "current_floor (outputs r rst s) = elevator_floor (next_state r rst s)"
  "current_state (outputs r rst s) = elevator_state (next_state r rst s)"
  "current_direction (outputs r rst s) = elevator_direction (next_state r rst s)"
  by (simp_all add: outputs_def next_state_def elevator_controller_def update_ports_def Let_def
        split: prod.splits)

lemma reachable_next: "reachable s \<Longrightarrow> controller_inv (next_state r rst s)"
  by (simp add: reachable_inv next_state_inv)

lemma floor_ge_1: "((f::floor_t) \<noteq> 0) = (1 \<le> f)"
  by unat_arith

lemma floor_uint_range: "(f::floor_t) \<noteq> 0 \<Longrightarrow> 1 \<le> uint f \<and> uint f \<le> 15"
  using floor_le_15 [of f] by (simp add: word_le_def floor_ge_1)

lemma door_open_next:
  "elevator_state s = STATE_DOOR_OPEN \<Longrightarrow> next_state r False s = s\<lparr>elevator_state := STATE_IDLE\<rparr>"
  by (simp add: next_state_no_reset process_request_def move_elevator_def state_defs)

lemma direction_rule_step:
  assumes "elevator_state s \<noteq> STATE_MOVING \<longrightarrow> elevator_direction s = DIR_IDLE"
  shows "elevator_state (next_state r rst s) \<noteq> STATE_MOVING \<longrightarrow>
         elevator_direction (next_state r rst s) = DIR_IDLE"
proof (cases rst)
  case True
  then show ?thesis
    by (simp add: next_state_def elevator_controller_reset init_controller_def)
next
  case False
  have "elevator_state (fst (process_request r s)) \<noteq> STATE_MOVING \<longrightarrow>
        elevator_direction (fst (process_request r s)) = DIR_IDLE"
    using assms by (simp add: process_request_def Let_def)
  then have "elevator_state (move_elevator (fst (process_request r s))) \<noteq> STATE_MOVING \<longrightarrow>
        elevator_direction (move_elevator (fst (process_request r s))) = DIR_IDLE"
    by (auto simp: move_elevator_def Let_def state_defs)
  with False show ?thesis
    by (simp add: next_state_no_reset)
qed

lemmas eval_defs = next_state_no_reset process_request_def move_elevator_def
  init_controller_def state_defs dir_defs Let_def

section \<open>Request acceptance\<close>

text \<open>
  C1. In a cycle without reset the request is accepted exactly when it is valid, no target
  is held, the controller is idle, the floor is between 1 and 15 and differs from the
  current floor. The value on the \<open>request_accepted\<close> port is the one the acceptance
  block assigns. On acceptance that block sets the target to the requested floor, the
  direction to up if the target is above the current floor and to down otherwise, and the
  state to moving. A request made while the controller is not idle is rejected and leaves
  no trace: the acceptance block changes nothing and the next state is the same for every
  request.
\<close>

theorem acceptance_rule:
  "(request_accepted (outputs r False s) =
      (req_valid r \<and> \<not> has_target s \<and> elevator_state s = STATE_IDLE \<and>
       1 \<le> req_floor r \<and> req_floor r \<le> 15 \<and> req_floor r \<noteq> elevator_floor s)) \<and>
   request_accepted (outputs r False s) = snd (process_request r s) \<and>
   (request_accepted (outputs r False s) \<longrightarrow>
      fst (process_request r s) =
        s\<lparr>target_floor := req_floor r, has_target := True,
          elevator_direction := (if elevator_floor s < req_floor r then DIR_UP else DIR_DOWN),
          elevator_state := STATE_MOVING\<rparr> \<and>
      target_floor (next_state r False s) = req_floor r) \<and>
   (elevator_state s \<noteq> STATE_IDLE \<longrightarrow>
      \<not> request_accepted (outputs r False s) \<and>
      fst (process_request r s) = s \<and>
      next_state r False s = next_state r' False s)"
proof -
  have a: "request_accepted (outputs r False s) = snd (process_request r s)"
    by (rule outputs_fields(4))
  have b: "elevator_state s \<noteq> STATE_IDLE \<Longrightarrow> process_request q s = (s, False)" for q
    by (simp add: process_request_def)
  show ?thesis
    by (auto simp: a snd_process_request [symmetric] process_request_accepted
          next_state_no_reset move_elevator_target b)
qed

theorem acceptance_rule_witness:
  "request_accepted (outputs \<lparr>req_floor = 3, req_valid = True\<rparr> False init_controller) \<and>
   fst (process_request \<lparr>req_floor = 3, req_valid = True\<rparr> init_controller) =
     \<lparr>elevator_floor = 1, elevator_state = STATE_MOVING, elevator_direction = DIR_UP,
      target_floor = 3, has_target = True\<rparr> \<and>
   elevator_state \<lparr>elevator_floor = 2, elevator_state = STATE_MOVING,
      elevator_direction = DIR_UP, target_floor = 4, has_target = True\<rparr> \<noteq> STATE_IDLE \<and>
   \<not> request_accepted (outputs \<lparr>req_floor = 7, req_valid = True\<rparr> False
      \<lparr>elevator_floor = 2, elevator_state = STATE_MOVING,
       elevator_direction = DIR_UP, target_floor = 4, has_target = True\<rparr>)"
  using acceptance_rule [of "\<lparr>req_floor = 3, req_valid = True\<rparr>" init_controller]
    acceptance_rule [of "\<lparr>req_floor = 7, req_valid = True\<rparr>"
      "\<lparr>elevator_floor = 2, elevator_state = STATE_MOVING,
       elevator_direction = DIR_UP, target_floor = 4, has_target = True\<rparr>"]
  by (simp add: init_controller_def state_defs)

section \<open>Reset, as seen on the ports\<close>

text \<open>
  C2. From every state, reachable or not, and for every request, a call with reset
  asserted leaves floor 1, state idle, direction idle and no target, and reports
  \<open>request_accepted = false\<close>. The result is the reset state itself, to which neither the
  acceptance block nor the movement block has been applied: it is the same for every
  request and every prior state.
\<close>

theorem reset_dominates:
  "next_state r True s = init_controller \<and>
   elevator_floor (next_state r True s) = 1 \<and>
   elevator_state (next_state r True s) = STATE_IDLE \<and>
   elevator_direction (next_state r True s) = DIR_IDLE \<and>
   \<not> has_target (next_state r True s) \<and>
   outputs r True s =
     \<lparr>current_floor = 1, current_state = STATE_IDLE, current_direction = DIR_IDLE,
      request_accepted = False\<rparr> \<and>
   elevator_controller r True s = (reset_controller s, update_ports (reset_controller s) False) \<and>
   elevator_controller r True s = elevator_controller r' True s'"
  by (simp add: next_state_def outputs_def elevator_controller_reset reset_controller_init
        update_ports_def init_controller_def)

section \<open>Rejected requests\<close>

text \<open>
  C3, as stated, fails. The car is at floor 2 on its way to floor 4 (the state reached from
  the initial one by a request for floor 4). A request for floor 7 in the next cycle is
  rejected, yet the call moves the car to floor 3: the state has changed.
\<close>

theorem rejected_state_unchanged_counterexample:
  "\<not> request_accepted (outputs \<lparr>req_floor = 7, req_valid = True\<rparr> False
        (next_state \<lparr>req_floor = 4, req_valid = True\<rparr> False init_controller)) \<and>
   elevator_floor (next_state \<lparr>req_floor = 4, req_valid = True\<rparr> False init_controller) = 2 \<and>
   elevator_floor (next_state \<lparr>req_floor = 7, req_valid = True\<rparr> False
        (next_state \<lparr>req_floor = 4, req_valid = True\<rparr> False init_controller)) = 3 \<and>
   next_state \<lparr>req_floor = 7, req_valid = True\<rparr> False
        (next_state \<lparr>req_floor = 4, req_valid = True\<rparr> False init_controller) \<noteq>
   next_state \<lparr>req_floor = 4, req_valid = True\<rparr> False init_controller"
  by (simp add: outputs_fields next_state_no_reset process_request_def move_elevator_def
        init_controller_def state_defs dir_defs Let_def)

text \<open>
  C3, amended. In a cycle without reset in which some acceptance condition fails, the call
  reports \<open>request_accepted = false\<close> and the acceptance block leaves the state as it
  was. The movement block still runs, so the state after the call is the movement block
  applied to the old state. The call as a whole leaves the state unchanged exactly when
  the controller is neither moving with a held target nor in the door-open state, in
  particular whenever it is idle.
\<close>

theorem rejected_request_effect:
  assumes "\<not> (req_valid r \<and> \<not> has_target s \<and> elevator_state s = STATE_IDLE \<and>
       1 \<le> req_floor r \<and> req_floor r \<le> 15 \<and> req_floor r \<noteq> elevator_floor s)"
  shows "\<not> request_accepted (outputs r False s) \<and>
     fst (process_request r s) = s \<and>
     next_state r False s = move_elevator s \<and>
     (next_state r False s = s) =
       (\<not> (has_target s \<and> elevator_state s = STATE_MOVING) \<and>
        elevator_state s \<noteq> STATE_DOOR_OPEN) \<and>
     (elevator_state s = STATE_IDLE \<longrightarrow> next_state r False s = s)"
proof -
  from assms have rej: "\<not> snd (process_request r s)"
    by (simp add: snd_process_request)
  then have same: "fst (process_request r s) = s"
    by (rule process_request_rejected)
  then have ns: "next_state r False s = move_elevator s"
    by (simp add: next_state_no_reset)
  show ?thesis
    using rej same ns by (simp add: outputs_fields move_elevator_fixed state_defs)
qed

theorem rejected_request_effect_witness:
  "\<not> (req_valid \<lparr>req_floor = 0, req_valid = True\<rparr> \<and> \<not> has_target init_controller \<and>
      elevator_state init_controller = STATE_IDLE \<and>
      1 \<le> req_floor \<lparr>req_floor = 0, req_valid = True\<rparr> \<and>
      req_floor \<lparr>req_floor = 0, req_valid = True\<rparr> \<le> 15 \<and>
      req_floor \<lparr>req_floor = 0, req_valid = True\<rparr> \<noteq> elevator_floor init_controller) \<and>
   \<not> request_accepted (outputs \<lparr>req_floor = 0, req_valid = True\<rparr> False init_controller) \<and>
   next_state \<lparr>req_floor = 0, req_valid = True\<rparr> False init_controller = init_controller"
proof -
  have h: "\<not> (req_valid \<lparr>req_floor = 0, req_valid = True\<rparr> \<and> \<not> has_target init_controller \<and>
      elevator_state init_controller = STATE_IDLE \<and>
      1 \<le> req_floor \<lparr>req_floor = 0, req_valid = True\<rparr> \<and>
      req_floor \<lparr>req_floor = 0, req_valid = True\<rparr> \<le> 15 \<and>
      req_floor \<lparr>req_floor = 0, req_valid = True\<rparr> \<noteq> elevator_floor init_controller)"
    by simp
  have idle: "elevator_state init_controller = STATE_IDLE"
    by (simp add: init_controller_def)
  from rejected_request_effect [OF h] idle h show ?thesis
    by blast
qed

section \<open>Approach to the target\<close>

text \<open>
  C4. In a reachable state that holds a target, the car is not at the target, and a cycle
  without reset moves it by exactly one floor: up by one if it is below the target, down
  by one if it is above. The target register is unchanged, the distance to the target
  drops by exactly one, and the target stays held exactly while the distance is not zero.
  Over any run of cycles without reset no longer than the distance, the distance drops by
  the number of cycles; after exactly that many cycles the car is at the target with the
  door open.
\<close>

theorem monotonic_approach:
  assumes "reachable s" and "has_target s"
  shows "elevator_floor s \<noteq> target_floor s \<and>
     (elevator_floor s < target_floor s \<longrightarrow>
        elevator_floor (next_state r False s) = elevator_floor s + 1 \<and>
        uint (elevator_floor (next_state r False s)) = uint (elevator_floor s) + 1) \<and>
     (target_floor s < elevator_floor s \<longrightarrow>
        elevator_floor (next_state r False s) = elevator_floor s - 1 \<and>
        uint (elevator_floor (next_state r False s)) = uint (elevator_floor s) - 1) \<and>
     target_floor (next_state r False s) = target_floor s \<and>
     floor_distance (next_state r False s) + 1 = floor_distance s \<and>
     has_target (next_state r False s) = (floor_distance (next_state r False s) \<noteq> 0) \<and>
     (length rs \<le> floor_distance s \<longrightarrow>
        floor_distance (run_cycles rs s) = floor_distance s - length rs \<and>
        has_target (run_cycles rs s) = (length rs < floor_distance s)) \<and>
     (length rs = floor_distance s \<longrightarrow>
        elevator_floor (run_cycles rs s) = target_floor s \<and>
        elevator_state (run_cycles rs s) = STATE_DOOR_OPEN)"
proof -
  have inv: "controller_inv s"
    using assms(1) by (rule reachable_inv)
  have mv: "elevator_state s = STATE_MOVING" and ne: "elevator_floor s \<noteq> target_floor s"
    using inv assms(2) by (auto simp: controller_inv_def)
  have ns: "next_state r False s = move_elevator s"
    using assms(2) by (rule next_state_held)
  have up: "elevator_floor s < target_floor s \<Longrightarrow>
        elevator_floor (next_state r False s) = elevator_floor s + 1 \<and>
        uint (elevator_floor (next_state r False s)) = uint (elevator_floor s) + 1"
    using move_elevator_up(1) [OF assms(2) mv] assms(2) mv
    by (simp add: ns move_elevator_def Let_def)
  have down: "target_floor s < elevator_floor s \<Longrightarrow>
        elevator_floor (next_state r False s) = elevator_floor s - 1 \<and>
        uint (elevator_floor (next_state r False s)) = uint (elevator_floor s) - 1"
    using move_elevator_down(1) [OF assms(2) mv] assms(2) mv
    by (auto simp: ns move_elevator_def Let_def)
  note step = move_step [OF inv assms(2), of r]
  have run: "length rs \<le> floor_distance s \<Longrightarrow>
     floor_distance (run_cycles rs s) = floor_distance s - length rs \<and>
     target_floor (run_cycles rs s) = target_floor s \<and>
     has_target (run_cycles rs s) = (length rs < floor_distance s) \<and>
     (length rs = floor_distance s \<longrightarrow> elevator_state (run_cycles rs s) = STATE_DOOR_OPEN)"
    using inv assms(2) by (rule run_cycles_approach)
  have arrive: "length rs = floor_distance s \<Longrightarrow>
        elevator_floor (run_cycles rs s) = target_floor s \<and>
        elevator_state (run_cycles rs s) = STATE_DOOR_OPEN"
  proof -
    assume len: "length rs = floor_distance s"
    with run have d: "floor_distance (run_cycles rs s) = 0"
      and t: "target_floor (run_cycles rs s) = target_floor s"
      and o: "elevator_state (run_cycles rs s) = STATE_DOOR_OPEN"
      by simp_all
    from d t have "elevator_floor (run_cycles rs s) = target_floor s"
      by (simp add: floor_distance_zero)
    with o show ?thesis by simp
  qed
  show ?thesis
    using ne up down step(1,2,3) run arrive by blast
qed

theorem monotonic_approach_witness:
  "reachable (next_state \<lparr>req_floor = 4, req_valid = True\<rparr> False init_controller) \<and>
   has_target (next_state \<lparr>req_floor = 4, req_valid = True\<rparr> False init_controller) \<and>
   elevator_floor (next_state \<lparr>req_floor = 4, req_valid = True\<rparr> False init_controller) = 2 \<and>
   elevator_floor (next_state \<lparr>req_floor = 9, req_valid = True\<rparr> False
      (next_state \<lparr>req_floor = 4, req_valid = True\<rparr> False init_controller)) = 3 \<and>
   floor_distance (next_state \<lparr>req_floor = 4, req_valid = True\<rparr> False init_controller) = 2 \<and>
   elevator_floor (run_cycles [\<lparr>req_floor = 9, req_valid = True\<rparr>, \<lparr>req_floor = 0, req_valid = False\<rparr>]
      (next_state \<lparr>req_floor = 4, req_valid = True\<rparr> False init_controller)) = 4 \<and>
   elevator_state (run_cycles [\<lparr>req_floor = 9, req_valid = True\<rparr>, \<lparr>req_floor = 0, req_valid = False\<rparr>]
      (next_state \<lparr>req_floor = 4, req_valid = True\<rparr> False init_controller)) = STATE_DOOR_OPEN"
proof -
  let ?s = "next_state \<lparr>req_floor = 4, req_valid = True\<rparr> False init_controller"
  have r: "reachable ?s"
    by (rule reachable_step [OF reachable_init])
  have h: "has_target ?s"
    by (simp add: eval_defs)
  have f: "elevator_floor ?s = 2" and t: "target_floor ?s = 4"
    by (simp_all add: eval_defs)
  have d: "floor_distance ?s = 2"
    by (simp add: floor_distance_def f t)
  from monotonic_approach [OF r h, of "\<lparr>req_floor = 9, req_valid = True\<rparr>"
      "[\<lparr>req_floor = 9, req_valid = True\<rparr>, \<lparr>req_floor = 0, req_valid = False\<rparr>]"]
  show ?thesis
    using r h by (simp add: f t d)
qed

section \<open>The door\<close>

text \<open>
  C5. From a reachable state, a cycle without reset ends in the door-open state exactly
  when a target is held during that cycle and the car's floor after the move equals it.
  From every door-open state the next call ends in the idle state, which is neither moving
  nor door-open, and accepts no request; without reset it changes nothing but the state
  register.
\<close>

theorem single_dwell_cycle:
  "(reachable s \<longrightarrow>
      (elevator_state (next_state r False s) = STATE_DOOR_OPEN) =
      (has_target (fst (process_request r s)) \<and>
       elevator_floor (next_state r False s) = target_floor (fst (process_request r s)))) \<and>
   (elevator_state s = STATE_DOOR_OPEN \<longrightarrow>
      elevator_state (next_state r rst s) = STATE_IDLE \<and>
      elevator_state (next_state r rst s) \<noteq> STATE_MOVING \<and>
      elevator_state (next_state r rst s) \<noteq> STATE_DOOR_OPEN \<and>
      \<not> request_accepted (outputs r rst s) \<and>
      next_state r False s = s\<lparr>elevator_state := STATE_IDLE\<rparr>)"
proof -
  have arrival: "(elevator_state (next_state r False s) = STATE_DOOR_OPEN) =
      (has_target (fst (process_request r s)) \<and>
       elevator_floor (next_state r False s) = target_floor (fst (process_request r s)))"
    if "reachable s"
  proof -
    let ?s1 = "fst (process_request r s)"
    have inv1: "controller_inv ?s1"
      using that by (simp add: reachable_inv process_request_inv)
    show ?thesis
    proof (cases "has_target ?s1")
      case True
      then have "elevator_state ?s1 = STATE_MOVING"
        using inv1 by (simp add: controller_inv_def)
      with True show ?thesis
        by (simp add: next_state_no_reset move_elevator_arrival(2))
    next
      case False
      then have "elevator_state ?s1 \<noteq> STATE_MOVING"
        using inv1 by (simp add: controller_inv_def)
      with False show ?thesis
        by (simp add: next_state_no_reset move_elevator_def state_defs)
    qed
  qed
  have dwell: "elevator_state (next_state r rst s) = STATE_IDLE \<and>
      elevator_state (next_state r rst s) \<noteq> STATE_MOVING \<and>
      elevator_state (next_state r rst s) \<noteq> STATE_DOOR_OPEN \<and>
      \<not> request_accepted (outputs r rst s) \<and>
      next_state r False s = s\<lparr>elevator_state := STATE_IDLE\<rparr>"
    if d: "elevator_state s = STATE_DOOR_OPEN"
  proof (cases rst)
    case True
    then show ?thesis
      using d by (simp add: next_state_def outputs_def elevator_controller_reset
          init_controller_def update_ports_def door_open_next [unfolded next_state_def] state_defs)
  next
    case False
    then show ?thesis
      using d by (simp add: door_open_next outputs_fields snd_process_request state_defs)
  qed
  show ?thesis
    using arrival dwell by blast
qed

theorem single_dwell_cycle_witness:
  "reachable (next_state \<lparr>req_floor = 2, req_valid = True\<rparr> False init_controller) \<and>
   elevator_state (next_state \<lparr>req_floor = 2, req_valid = True\<rparr> False init_controller) =
     STATE_DOOR_OPEN \<and>
   elevator_state (next_state \<lparr>req_floor = 5, req_valid = True\<rparr> False
     (next_state \<lparr>req_floor = 2, req_valid = True\<rparr> False init_controller)) = STATE_IDLE \<and>
   reachable init_controller \<and>
   has_target (fst (process_request \<lparr>req_floor = 2, req_valid = True\<rparr> init_controller)) \<and>
   elevator_floor (next_state \<lparr>req_floor = 2, req_valid = True\<rparr> False init_controller) =
     target_floor (fst (process_request \<lparr>req_floor = 2, req_valid = True\<rparr> init_controller))"
proof -
  let ?s = "next_state \<lparr>req_floor = 2, req_valid = True\<rparr> False init_controller"
  have r: "reachable ?s"
    by (rule reachable_step [OF reachable_init])
  have d: "elevator_state ?s = STATE_DOOR_OPEN"
    by (simp add: eval_defs)
  from single_dwell_cycle [of init_controller "\<lparr>req_floor = 2, req_valid = True\<rparr>"]
    single_dwell_cycle [of ?s "\<lparr>req_floor = 5, req_valid = True\<rparr>" False]
  show ?thesis
    using r d reachable_init by simp
qed

section \<open>Invariants of the reachable states\<close>

text \<open>
  C6. In every reachable state the direction is idle whenever the state is not moving, and
  the same holds of the values on the ports after every call. It holds initially and after
  reset, and every call preserves it, from any state that satisfies it.
\<close>

theorem direction_idle_unless_moving:
  "(reachable s \<longrightarrow> elevator_state s \<noteq> STATE_MOVING \<longrightarrow> elevator_direction s = DIR_IDLE) \<and>
   (reachable s \<longrightarrow> current_state (outputs r rst s) \<noteq> STATE_MOVING \<longrightarrow>
      current_direction (outputs r rst s) = DIR_IDLE) \<and>
   elevator_direction init_controller = DIR_IDLE \<and>
   elevator_direction (next_state r True s) = DIR_IDLE \<and>
   ((elevator_state s \<noteq> STATE_MOVING \<longrightarrow> elevator_direction s = DIR_IDLE) \<longrightarrow>
    elevator_state (next_state r rst s) \<noteq> STATE_MOVING \<longrightarrow>
    elevator_direction (next_state r rst s) = DIR_IDLE)"
proof -
  have a: "elevator_state s \<noteq> STATE_MOVING \<longrightarrow> elevator_direction s = DIR_IDLE" if "reachable s"
    using reachable_inv [OF that] by (simp add: controller_inv_def)
  have b: "current_state (outputs r rst s) \<noteq> STATE_MOVING \<longrightarrow>
      current_direction (outputs r rst s) = DIR_IDLE" if "reachable s"
    using reachable_next [OF that, of r rst] by (simp add: outputs_ports controller_inv_def)
  have c: "elevator_direction init_controller = DIR_IDLE"
    by (simp add: init_controller_def)
  have d: "elevator_direction (next_state r True s) = DIR_IDLE"
    by (simp add: next_state_def elevator_controller_reset init_controller_def)
  show ?thesis
    using a b c d direction_rule_step [of s r rst] by blast
qed

theorem direction_idle_unless_moving_witness:
  "reachable (next_state \<lparr>req_floor = 2, req_valid = True\<rparr> False init_controller) \<and>
   elevator_state (next_state \<lparr>req_floor = 2, req_valid = True\<rparr> False init_controller) \<noteq>
     STATE_MOVING \<and>
   elevator_direction (next_state \<lparr>req_floor = 2, req_valid = True\<rparr> False init_controller) =
     DIR_IDLE \<and>
   current_state (outputs \<lparr>req_floor = 0, req_valid = False\<rparr> False
     (next_state \<lparr>req_floor = 2, req_valid = True\<rparr> False init_controller)) \<noteq> STATE_MOVING \<and>
   current_direction (outputs \<lparr>req_floor = 0, req_valid = False\<rparr> False
     (next_state \<lparr>req_floor = 2, req_valid = True\<rparr> False init_controller)) = DIR_IDLE"
proof -
  let ?s = "next_state \<lparr>req_floor = 2, req_valid = True\<rparr> False init_controller"
  have r: "reachable ?s"
    by (rule reachable_step [OF reachable_init])
  have st: "elevator_state ?s = STATE_DOOR_OPEN"
    by (simp add: eval_defs)
  have m: "elevator_state ?s \<noteq> STATE_MOVING"
    by (simp add: st state_defs)
  have o: "current_state (outputs \<lparr>req_floor = 0, req_valid = False\<rparr> False ?s) \<noteq> STATE_MOVING"
    by (simp add: outputs_ports door_open_next [OF st] state_defs)
  from direction_idle_unless_moving [of ?s "\<lparr>req_floor = 0, req_valid = False\<rparr>" False]
  show ?thesis
    using r m o by blast
qed

text \<open>
  C7. In every reachable state a target is held exactly when the state is moving, and a
  held target differs from the car's floor. In the cycle in which the car's floor reaches
  the held target, the target is cleared and the state is no longer moving.
\<close>

theorem target_held_iff_moving:
  assumes "reachable s"
  shows "has_target s = (elevator_state s = STATE_MOVING) \<and>
     (has_target s \<longrightarrow> elevator_floor s \<noteq> target_floor s) \<and>
     (has_target (fst (process_request r s)) \<and>
      elevator_floor (next_state r False s) = target_floor (fst (process_request r s)) \<longrightarrow>
        \<not> has_target (next_state r False s) \<and>
        elevator_state (next_state r False s) \<noteq> STATE_MOVING)"
proof -
  have inv: "controller_inv s"
    using assms by (rule reachable_inv)
  let ?s1 = "fst (process_request r s)"
  have inv1: "controller_inv ?s1"
    using inv by (rule process_request_inv)
  have clr: "\<not> has_target (next_state r False s) \<and>
        elevator_state (next_state r False s) \<noteq> STATE_MOVING"
    if h: "has_target ?s1" and e: "elevator_floor (next_state r False s) = target_floor ?s1"
  proof -
    have m: "elevator_state ?s1 = STATE_MOVING"
      using inv1 h by (simp add: controller_inv_def)
    show ?thesis
      using e move_elevator_arrival(1,3) [OF h m] by (simp add: next_state_no_reset)
  qed
  have "has_target s = (elevator_state s = STATE_MOVING)"
    and "has_target s \<longrightarrow> elevator_floor s \<noteq> target_floor s"
    using inv by (auto simp: controller_inv_def)
  with clr show ?thesis by blast
qed

theorem target_held_iff_moving_witness:
  "reachable (next_state \<lparr>req_floor = 3, req_valid = True\<rparr> False init_controller) \<and>
   has_target (next_state \<lparr>req_floor = 3, req_valid = True\<rparr> False init_controller) \<and>
   elevator_state (next_state \<lparr>req_floor = 3, req_valid = True\<rparr> False init_controller) =
     STATE_MOVING \<and>
   elevator_floor (next_state \<lparr>req_floor = 0, req_valid = False\<rparr> False
     (next_state \<lparr>req_floor = 3, req_valid = True\<rparr> False init_controller)) = 3 \<and>
   \<not> has_target (next_state \<lparr>req_floor = 0, req_valid = False\<rparr> False
     (next_state \<lparr>req_floor = 3, req_valid = True\<rparr> False init_controller))"
proof -
  let ?s = "next_state \<lparr>req_floor = 3, req_valid = True\<rparr> False init_controller"
  let ?q = "\<lparr>req_floor = 0, req_valid = False\<rparr>"
  have r: "reachable ?s"
    by (rule reachable_step [OF reachable_init])
  have s: "?s = \<lparr>elevator_floor = 2, elevator_state = STATE_MOVING, elevator_direction = DIR_UP,
      target_floor = 3, has_target = True\<rparr>"
    by (simp add: eval_defs)
  have p: "fst (process_request ?q ?s) = ?s"
    by (simp add: process_request_def)
  have h: "has_target (fst (process_request ?q ?s))"
    by (simp add: p) (simp add: s)
  have f: "elevator_floor (next_state ?q False ?s) = 3"
    by (simp add: s) (simp add: eval_defs)
  have e: "elevator_floor (next_state ?q False ?s) = target_floor (fst (process_request ?q ?s))"
    by (simp add: f p) (simp add: s)
  have hs: "has_target ?s" and ms: "elevator_state ?s = STATE_MOVING"
    by (simp_all add: s)
  from target_held_iff_moving [OF r, of ?q]
  show ?thesis
    using r h e f hs ms by blast
qed

text \<open>
  C8. In every reachable state the car's floor is between 1 and 15, so never 0; a held
  target is between 1 and 15 too, and the floor on the port after every call is in the
  same range.
\<close>

theorem floor_in_range:
  assumes "reachable s"
  shows "elevator_floor s \<noteq> 0 \<and> 1 \<le> elevator_floor s \<and> elevator_floor s \<le> 15 \<and>
     1 \<le> uint (elevator_floor s) \<and> uint (elevator_floor s) \<le> 15 \<and>
     (has_target s \<longrightarrow> 1 \<le> target_floor s \<and> target_floor s \<le> 15) \<and>
     1 \<le> current_floor (outputs r rst s) \<and> current_floor (outputs r rst s) \<le> 15"
proof -
  have inv: "controller_inv s"
    using assms by (rule reachable_inv)
  then have nz: "elevator_floor s \<noteq> 0"
    and tg: "has_target s \<longrightarrow> target_floor s \<noteq> 0"
    by (simp_all add: controller_inv_def)
  have "elevator_floor (next_state r rst s) \<noteq> 0"
    using reachable_next [OF assms, of r rst] by (simp add: controller_inv_def)
  then have out: "1 \<le> current_floor (outputs r rst s)"
    by (simp add: outputs_ports floor_ge_1)
  show ?thesis
    using nz tg out floor_uint_range [OF nz]
    by (simp add: floor_ge_1 floor_le_15)
qed

theorem floor_in_range_witness:
  "reachable (next_state \<lparr>req_floor = 15, req_valid = True\<rparr> False init_controller) \<and>
   elevator_floor (next_state \<lparr>req_floor = 15, req_valid = True\<rparr> False init_controller) = 2 \<and>
   1 \<le> elevator_floor (next_state \<lparr>req_floor = 15, req_valid = True\<rparr> False init_controller) \<and>
   has_target (next_state \<lparr>req_floor = 15, req_valid = True\<rparr> False init_controller) \<and>
   1 \<le> target_floor (next_state \<lparr>req_floor = 15, req_valid = True\<rparr> False init_controller)"
proof -
  let ?s = "next_state \<lparr>req_floor = 15, req_valid = True\<rparr> False init_controller"
  have r: "reachable ?s"
    by (rule reachable_step [OF reachable_init])
  have f: "elevator_floor ?s = 2" and h: "has_target ?s"
    by (simp_all add: eval_defs)
  from floor_in_range [OF r] show ?thesis
    using r f h by blast
qed

section \<open>Requests for an adjacent floor\<close>

text \<open>
  C9. When a request for a floor exactly one above or one below the current floor is
  accepted, that same call ends with the car at the requested floor, the door open and
  the direction idle, on the ports and in the state; the moving state is not seen after
  the call.
\<close>

theorem adjacent_request:
  assumes "request_accepted (outputs r False s)"
    and "uint (req_floor r) = uint (elevator_floor s) + 1 \<or>
         uint (req_floor r) = uint (elevator_floor s) - 1"
  shows "current_floor (outputs r False s) = req_floor r \<and>
     current_state (outputs r False s) = STATE_DOOR_OPEN \<and>
     current_direction (outputs r False s) = DIR_IDLE \<and>
     next_state r False s =
       s\<lparr>elevator_floor := req_floor r, elevator_state := STATE_DOOR_OPEN,
         elevator_direction := DIR_IDLE, target_floor := req_floor r, has_target := False\<rparr> \<and>
     elevator_state (next_state r False s) \<noteq> STATE_MOVING"
proof -
  have acc: "snd (process_request r s)"
    using assms(1) by (simp add: outputs_fields)
  let ?s1 = "fst (process_request r s)"
  have s1: "?s1 = s\<lparr>target_floor := req_floor r, has_target := True,
       elevator_direction := (if elevator_floor s < req_floor r then DIR_UP else DIR_DOWN),
       elevator_state := STATE_MOVING\<rparr>"
    using acc by (rule process_request_accepted)
  have step: "(elevator_floor s < req_floor r \<and> elevator_floor s + 1 = req_floor r) \<or>
      (req_floor r < elevator_floor s \<and> elevator_floor s - 1 = req_floor r)"
    using assms(2) by uint_arith
  have ns: "next_state r False s =
       s\<lparr>elevator_floor := req_floor r, elevator_state := STATE_DOOR_OPEN,
         elevator_direction := DIR_IDLE, target_floor := req_floor r, has_target := False\<rparr>"
    using step
  proof
    assume "elevator_floor s < req_floor r \<and> elevator_floor s + 1 = req_floor r"
    then show ?thesis
      by (simp add: next_state_no_reset s1 move_elevator_def Let_def)
  next
    assume d: "req_floor r < elevator_floor s \<and> elevator_floor s - 1 = req_floor r"
    then have "req_floor r < elevator_floor s"
      by (rule conjunct1)
    then have "\<not> elevator_floor s < req_floor r"
      by (rule less_not_sym)
    with d show ?thesis
      by (simp add: next_state_no_reset s1 move_elevator_def Let_def)
  qed
  show ?thesis
    by (simp add: outputs_ports ns state_defs)
qed

theorem adjacent_request_witness:
  "request_accepted (outputs \<lparr>req_floor = 2, req_valid = True\<rparr> False init_controller) \<and>
   uint (req_floor \<lparr>req_floor = 2, req_valid = True\<rparr>) = uint (elevator_floor init_controller) + 1 \<and>
   current_floor (outputs \<lparr>req_floor = 2, req_valid = True\<rparr> False init_controller) = 2 \<and>
   current_state (outputs \<lparr>req_floor = 2, req_valid = True\<rparr> False init_controller) =
     STATE_DOOR_OPEN \<and>
   current_direction (outputs \<lparr>req_floor = 2, req_valid = True\<rparr> False init_controller) = DIR_IDLE"
proof -
  let ?r = "\<lparr>req_floor = 2, req_valid = True\<rparr>"
  have a: "request_accepted (outputs ?r False init_controller)"
    by (simp add: outputs_fields snd_process_request init_controller_def state_defs)
  have u: "uint (req_floor ?r) = uint (elevator_floor init_controller) + 1"
    by (simp add: init_controller_def)
  from adjacent_request [OF a disjI1 [OF u]] show ?thesis
    using a u by simp
qed

section \<open>The width of the floor type\<close>

text \<open>
  C10. A \<open>floor_t\<close> value is always between 0 and 15, and an integer assigned to it
  is reduced modulo 16. So the upper-bound check of the acceptance block is always true:
  the block accepts exactly when the request is valid, no target is held, the controller
  is idle, the floor is above 0 and differs from the current floor. Given a valid request,
  an idle controller and no held target, acceptance is equivalent to the floor being
  neither 0 nor the current floor.
\<close>

theorem floor_t_range:
  "0 \<le> uint (req_floor r) \<and> uint (req_floor r) \<le> 15 \<and> req_floor r \<le> 15 \<and>
   uint (to_floor_t n) = n mod 16 \<and>
   (req_valid r \<and> elevator_state s = STATE_IDLE \<and> \<not> has_target s \<longrightarrow>
      request_accepted (outputs r False s) =
        (req_floor r \<noteq> 0 \<and> req_floor r \<noteq> elevator_floor s)) \<and>
   (snd (process_request r s) =
      (req_valid r \<and> \<not> has_target s \<and> elevator_state s = STATE_IDLE \<and>
       req_floor r > 0 \<and> req_floor r \<noteq> elevator_floor s))"
proof -
  have le: "req_floor r \<le> 15"
    by (rule floor_le_15)
  then have u: "uint (req_floor r) \<le> 15"
    by (simp add: word_le_def)
  have m: "uint (to_floor_t n) = n mod 16"
    by (simp add: to_floor_t_def uint_word_of_int take_bit_eq_mod)
  have acc: "snd (process_request r s) =
      (req_valid r \<and> \<not> has_target s \<and> elevator_state s = STATE_IDLE \<and>
       req_floor r > 0 \<and> req_floor r \<noteq> elevator_floor s)"
    by (auto simp: process_request_def Let_def floor_le_15)
  have eq: "request_accepted (outputs r False s) =
        (req_floor r \<noteq> 0 \<and> req_floor r \<noteq> elevator_floor s)"
    if "req_valid r \<and> elevator_state s = STATE_IDLE \<and> \<not> has_target s"
    using that by (simp add: outputs_fields acc word_neq_0_conv)
  have z: "0 \<le> uint (req_floor r)"
    by simp
  from z u le m eq acc show ?thesis
    by blast
qed

theorem floor_t_range_witness:
  "to_floor_t 19 = 3 \<and>
   req_valid \<lparr>req_floor = to_floor_t 19, req_valid = True\<rparr> \<and>
   elevator_state init_controller = STATE_IDLE \<and> \<not> has_target init_controller \<and>
   request_accepted (outputs \<lparr>req_floor = to_floor_t 19, req_valid = True\<rparr> False init_controller) \<and>
   \<not> request_accepted (outputs \<lparr>req_floor = to_floor_t 16, req_valid = True\<rparr> False init_controller)"
  using floor_t_range [of "\<lparr>req_floor = to_floor_t 19, req_valid = True\<rparr>" 19 init_controller]
    floor_t_range [of "\<lparr>req_floor = to_floor_t 16, req_valid = True\<rparr>" 16 init_controller]
  by (simp add: init_controller_def to_floor_t_def)

end
